theory Spec2Isabelle
  imports Main
begin

section \<open>Filter syntax parts: data model\<close>

text \<open>
  The filter language of \<^verbatim>\<open>src/model/filters/syntax-parts.ts\<close> and the two
  composition loops \<^verbatim>\<open>parseFilter\<close> and \<^verbatim>\<open>tryParseFilter\<close> of the search
  filter definitions.

  Strings are lists of 8-bit characters: a position of a string holds one code unit,
  \<open>of_char\<close> is \<^verbatim>\<open>charCodeAt\<close>, and code units above 255 are outside the model.
  Indices, lengths and consumed counts are natural numbers. The string argument of
  every operation, \<^verbatim>\<open>value\<close> in the source, is written \<open>s\<close>.
\<close>

datatype MatchType = partial | full

record SyntaxMatch =
  type :: MatchType
  consumed :: nat

record Suggestion =
  showAs :: string
  value_str :: string
  template :: bool

type_synonym CharRange = "nat \<times> nat"

type_synonym 'ctx Generator = "string \<Rightarrow> nat \<Rightarrow> 'ctx \<Rightarrow> string list"

text \<open>
  The five classes implementing \<^verbatim>\<open>SyntaxPart\<close>, each with its constructor arguments:
  \<^item> \<open>FixedStringSyntax matcher\<close>;
  \<^item> \<open>StringSyntax templateText allowEmpty allowedChars suggestionGenerator\<close>, where an
    option that is left out is \<open>False\<close> for the flag and \<open>None\<close> for the others;
  \<^item> \<open>NumberSyntax name\<close>;
  \<^item> \<open>FixedLengthNumberSyntax requiredLength suggestionGenerator\<close>;
  \<^item> \<open>StringOptionsSyntax options\<close>.
  The required length is a number of digits, a natural number: a negative or \<^verbatim>\<open>NaN\<close>
  length, which no run of digits ever has, is not represented.
\<close>

datatype 'ctx SyntaxPart =
    FixedStringSyntax string
  | StringSyntax string bool "CharRange list option" "'ctx Generator option"
  | NumberSyntax string
  | FixedLengthNumberSyntax nat "'ctx Generator option"
  | StringOptionsSyntax "string list"

text \<open>What a parsed part is: a string, or the result of \<^verbatim>\<open>parseInt\<close>.\<close>

datatype Parsed = PString string | PNumber nat | PNaN

text \<open>
  \<open>ParseError\<close> is the \<^verbatim>\<open>Error("Can't parse expected-parseable value")\<close> thrown by
  \<^verbatim>\<open>getParsedValue\<close>; \<open>TypeError\<close> is what reading \<^verbatim>\<open>.consumed\<close> of an undefined
  match throws.
\<close>

datatype error = ParseError | TypeError

section \<open>Characters and strings\<close>

text \<open>
  \<^verbatim>\<open>toLowerCase\<close> on the code units below 256: the letters A to Z and the Latin-1
  capitals (192 to 222 without the multiplication sign 215) move up by 32.
\<close>

definition toLowerCase_char :: "char \<Rightarrow> char" where
  "toLowerCase_char c =
     (let n = (of_char c :: nat)
      in if (65 \<le> n \<and> n \<le> 90) \<or> (192 \<le> n \<and> n \<le> 222 \<and> n \<noteq> 215)
         then char_of (n + 32) else c)"

definition toLowerCase :: "string \<Rightarrow> string" where
  "toLowerCase s = map toLowerCase_char s"

text \<open>\<^verbatim>\<open>s.substring(a, b)\<close> and \<^verbatim>\<open>s.slice(a, b)\<close> for \<open>0 \<le> a \<le> b\<close>.\<close>

definition substring :: "string \<Rightarrow> nat \<Rightarrow> nat \<Rightarrow> string" where
  "substring s a b = take (b - a) (drop a s)"

definition slice :: "string \<Rightarrow> nat \<Rightarrow> nat \<Rightarrow> string" where
  "slice s a b = take (b - a) (drop a s)"

definition startsWith :: "string \<Rightarrow> string \<Rightarrow> bool" where
  "startsWith s p = (take (length p) s = p)"

text \<open>Template literals print a number in decimal.\<close>

fun showNumber :: "nat \<Rightarrow> string" where
  "showNumber n =
     (if n < 10 then [char_of (48 + n)]
      else showNumber (n div 10) @ [char_of (48 + n mod 10)])"

declare showNumber.simps [simp del]

text \<open>
  \<^verbatim>\<open>parseInt(s, 10)\<close> on a string that starts with its digits: the decimal value of
  the leading digits, \<^verbatim>\<open>NaN\<close> when there is none. The callers pass digit strings only.
  The value is the exact one: the rounding of JavaScript numbers from 2^53 on is
  not modelled.
\<close>

definition isDigit :: "char \<Rightarrow> bool" where
  "isDigit c = (48 \<le> (of_char c :: nat) \<and> (of_char c :: nat) \<le> 57)"

definition parseInt :: "string \<Rightarrow> Parsed" where
  "parseInt s =
     (let ds = takeWhile isDigit s
      in if ds = [] then PNaN
         else PNumber (foldl (\<lambda>acc c. 10 * acc + (of_char c - 48)) 0 ds))"

text \<open>
  \<^verbatim>\<open>_.maxBy(array, iteratee)\<close>: the first element with the greatest key, undefined
  on the empty array (a later element replaces the result only with a strictly
  greater key).
\<close>

fun maxBy_loop :: "('a \<Rightarrow> nat) \<Rightarrow> 'a list \<Rightarrow> 'a option \<Rightarrow> 'a option" where
  "maxBy_loop f [] result = result"
| "maxBy_loop f (x # xs) result =
     (case result of
        None \<Rightarrow> maxBy_loop f xs (Some x)
      | Some r \<Rightarrow> if f x > f r then maxBy_loop f xs (Some x) else maxBy_loop f xs result)"

definition maxBy :: "'a list \<Rightarrow> ('a \<Rightarrow> nat) \<Rightarrow> 'a option" where
  "maxBy array f = maxBy_loop f array None"

section \<open>Character ranges and the greedy reader\<close>

definition matchesRange :: "nat \<Rightarrow> CharRange \<Rightarrow> bool" where
  "matchesRange charCode rng = (charCode \<ge> fst rng \<and> charCode \<le> snd rng)"

definition NUMBER_CHARS :: CharRange where
  "NUMBER_CHARS = (48, 57)"

text \<open>
  The loop of \<^verbatim>\<open>getStringAt\<close>: from \<open>i\<close>, read characters until the end of the string
  or a character that no range allows; the result is the position reached.
\<close>

function getStringAt_loop :: "string \<Rightarrow> CharRange list \<Rightarrow> nat \<Rightarrow> nat" where
  "getStringAt_loop s allowedCharRanges i =
     (if i < length s
      then (if \<not> list_ex (\<lambda>r. matchesRange (of_char (s ! i)) r) allowedCharRanges
            then i
            else getStringAt_loop s allowedCharRanges (Suc i))
      else i)"
  by pat_completeness auto
termination
  by (relation "measure (\<lambda>(s, rs, i). length s - i)") auto

declare getStringAt_loop.simps [simp del]

definition getStringAt :: "string \<Rightarrow> nat \<Rightarrow> CharRange list \<Rightarrow> string option" where
  "getStringAt s index allowedCharRanges =
     (let i = getStringAt_loop s allowedCharRanges index
      in if i \<noteq> index then Some (substring s index i)
         else if i = length s then Some []
         else None)"

definition getNumberAt :: "string \<Rightarrow> nat \<Rightarrow> string option" where
  "getNumberAt s index = getStringAt s index [NUMBER_CHARS]"

section \<open>The match operation of each part\<close>

text \<open>
  The comparison loop of \<^verbatim>\<open>FixedStringSyntax.match\<close>: \<open>None\<close> is the early
  \<^verbatim>\<open>return undefined\<close>, \<open>Some i\<close> the position at which the loop ends.
\<close>

function FixedStringSyntax_match_loop ::
    "string \<Rightarrow> string \<Rightarrow> string \<Rightarrow> nat \<Rightarrow> nat \<Rightarrow> nat option" where
  "FixedStringSyntax_match_loop matcher expected s index i =
     (if i - index < length matcher \<and> i < length s
      then (if expected ! (i - index) \<noteq> toLowerCase_char (s ! i)
            then None
            else FixedStringSyntax_match_loop matcher expected s index (Suc i))
      else Some i)"
  by pat_completeness auto
termination
  by (relation "measure (\<lambda>(m, e, s, index, i). length s - i)") auto

declare FixedStringSyntax_match_loop.simps [simp del]

definition FixedStringSyntax_match :: "string \<Rightarrow> string \<Rightarrow> nat \<Rightarrow> SyntaxMatch option" where
  "FixedStringSyntax_match matcher s index =
     (let expected = toLowerCase matcher
      in case FixedStringSyntax_match_loop matcher expected s index index of
           None \<Rightarrow> None
         | Some i \<Rightarrow>
             (let consumedChars = i - index
              in Some \<lparr>type = (if consumedChars = length matcher then full else partial),
                       consumed = consumedChars\<rparr>))"

text \<open>The constructor of \<^verbatim>\<open>StringSyntax\<close>: \<^verbatim>\<open>options.allowedChars || [[0, 255]]\<close>.\<close>

definition allowedCharRanges :: "CharRange list option \<Rightarrow> CharRange list" where
  "allowedCharRanges allowedChars =
     (case allowedChars of None \<Rightarrow> [(0, 255)] | Some rs \<Rightarrow> rs)"

definition StringSyntax_match ::
    "bool \<Rightarrow> CharRange list option \<Rightarrow> string \<Rightarrow> nat \<Rightarrow> SyntaxMatch option" where
  "StringSyntax_match allowEmpty allowedChars s index =
     (case getStringAt s index (allowedCharRanges allowedChars) of
        None \<Rightarrow> None
      | Some matchingString \<Rightarrow>
          (let consumedChars = length matchingString
           in Some \<lparr>type = (if consumedChars > 0 \<or> allowEmpty then full else partial),
                    consumed = consumedChars\<rparr>))"

text \<open>
  \<^verbatim>\<open>NumberSyntax\<close> holds \<^verbatim>\<open>new StringSyntax(name, { allowedChars: [NUMBER_CHARS] })\<close>
  and hands \<^verbatim>\<open>match\<close> over to it.
\<close>

definition NumberSyntax_match :: "string \<Rightarrow> nat \<Rightarrow> SyntaxMatch option" where
  "NumberSyntax_match s index = StringSyntax_match False (Some [NUMBER_CHARS]) s index"

definition FixedLengthNumberSyntax_match :: "nat \<Rightarrow> string \<Rightarrow> nat \<Rightarrow> SyntaxMatch option" where
  "FixedLengthNumberSyntax_match requiredLength s index =
     (case getNumberAt s index of
        None \<Rightarrow> None
      | Some matchingNumber \<Rightarrow>
          (let consumedChars = length matchingNumber
           in if consumedChars = requiredLength
              then Some \<lparr>type = full, consumed = consumedChars\<rparr>
              else if consumedChars < requiredLength
              then Some \<lparr>type = partial, consumed = consumedChars\<rparr>
              else None))"

definition StringOptionsSyntax_match :: "string list \<Rightarrow> string \<Rightarrow> nat \<Rightarrow> SyntaxMatch option" where
  "StringOptionsSyntax_match options s index =
     (let matches = List.map_filter (\<lambda>m. m)
                      (map (\<lambda>m. FixedStringSyntax_match m s index) options);
          (fullMatches, partialMatches) = partition (\<lambda>m. type m = full) matches;
          bestMatches = (if fullMatches \<noteq> [] then fullMatches else partialMatches)
      in maxBy bestMatches consumed)"

fun match :: "'ctx SyntaxPart \<Rightarrow> string \<Rightarrow> nat \<Rightarrow> SyntaxMatch option" where
  "match (FixedStringSyntax matcher) s index = FixedStringSyntax_match matcher s index"
| "match (StringSyntax templateText allowEmpty allowedChars gen) s index =
     StringSyntax_match allowEmpty allowedChars s index"
| "match (NumberSyntax name) s index = NumberSyntax_match s index"
| "match (FixedLengthNumberSyntax requiredLength gen) s index =
     FixedLengthNumberSyntax_match requiredLength s index"
| "match (StringOptionsSyntax options) s index = StringOptionsSyntax_match options s index"

section \<open>The parse operation of each part\<close>

definition getParsedValue :: "'ctx SyntaxPart \<Rightarrow> string \<Rightarrow> nat \<Rightarrow> error + string" where
  "getParsedValue part s index =
     (case match part s index of
        None \<Rightarrow> Inl ParseError
      | Some m \<Rightarrow>
          if type m \<noteq> full then Inl ParseError
          else Inr (slice s index (index + consumed m)))"

fun parse :: "'ctx SyntaxPart \<Rightarrow> string \<Rightarrow> nat \<Rightarrow> error + Parsed" where
  "parse (FixedStringSyntax matcher) s index =
     (case getParsedValue (FixedStringSyntax matcher :: 'ctx SyntaxPart) s index of
        Inl e \<Rightarrow> Inl e
      | Inr _ \<Rightarrow> Inr (PString matcher))"
| "parse (StringSyntax templateText allowEmpty allowedChars gen) s index =
     (case getParsedValue (StringSyntax templateText allowEmpty allowedChars gen) s index of
        Inl e \<Rightarrow> Inl e
      | Inr str \<Rightarrow> Inr (PString str))"
| "parse (NumberSyntax name) s index =
     (case getParsedValue
             (StringSyntax name False (Some [NUMBER_CHARS]) None :: 'ctx SyntaxPart) s index of
        Inl e \<Rightarrow> Inl e
      | Inr valueAsString \<Rightarrow> Inr (parseInt valueAsString))"
| "parse (FixedLengthNumberSyntax requiredLength gen) s index =
     (case getParsedValue (FixedLengthNumberSyntax requiredLength gen) s index of
        Inl e \<Rightarrow> Inl e
      | Inr valueAsString \<Rightarrow> Inr (parseInt valueAsString))"
| "parse (StringOptionsSyntax options) s index =
     (case getParsedValue (StringOptionsSyntax options :: 'ctx SyntaxPart) s index of
        Inl e \<Rightarrow> Inl e
      | Inr str \<Rightarrow> Inr (PString str))"

section \<open>Suggestions of the fixed-length number\<close>

text \<open>
  \<^verbatim>\<open>!matchingNumber\<close> holds for undefined and for the empty string. The generator runs
  only under \<^verbatim>\<open>context && this.options.suggestionGenerator\<close>: the context \<open>None\<close>
  stands for a context that is left out or is any other falsy value, \<open>Some ctx\<close> for a
  truthy one.
\<close>

definition FixedLengthNumberSyntax_getSuggestions ::
    "nat \<Rightarrow> 'ctx Generator option \<Rightarrow> string \<Rightarrow> nat \<Rightarrow> 'ctx option \<Rightarrow> Suggestion list" where
  "FixedLengthNumberSyntax_getSuggestions requiredLength suggestionGenerator s index context =
     (let matchingNumber = getNumberAt s index;
          suggestions =
            (case (context, suggestionGenerator) of
               (Some ctx, Some gen) \<Rightarrow>
                 map (\<lambda>sg. \<lparr>showAs = sg, value_str = sg, template = False\<rparr>)
                   (filter (\<lambda>suggestion.
                        (case matchingNumber of
                           None \<Rightarrow> True
                         | Some typed \<Rightarrow> typed = [] \<or> startsWith suggestion typed) \<and>
                        length suggestion = requiredLength \<and>
                        \<not> list_ex (\<lambda>c. \<not> matchesRange (of_char c) NUMBER_CHARS) suggestion)
                      (gen s index ctx))
             | _ \<Rightarrow> []);
          placeholder = \<lparr>showAs = ''{'' @ showNumber requiredLength @ ''-digit number}'',
                         value_str = [], template = True\<rparr>
      in case matchingNumber of
           None \<Rightarrow> placeholder # suggestions
         | Some typed \<Rightarrow>
             if typed = [] then placeholder # suggestions
             else if suggestions \<noteq> [] then suggestions
             else (let extendedNumber =
                         typed @ replicate (requiredLength - length typed) (CHR ''0'')
                   in [\<lparr>showAs = extendedNumber, value_str = extendedNumber,
                        template = False\<rparr>]))"

section \<open>Composition over a filter definition\<close>

text \<open>
  \<^verbatim>\<open>parseFilter\<close>: the loop state is the cursor \<open>index\<close> and the array \<open>parts\<close> of
  the values pushed so far. A throw of \<^verbatim>\<open>part.parse\<close> ends the loop with that error.
\<close>

fun parseFilter_loop ::
    "'ctx SyntaxPart list \<Rightarrow> string \<Rightarrow> nat \<Rightarrow> Parsed list \<Rightarrow> error + Parsed list" where
  "parseFilter_loop [] s index parts = Inr parts"
| "parseFilter_loop (part # rest) s index parts =
     (case parse part s index of
        Inl e \<Rightarrow> Inl e
      | Inr p \<Rightarrow>
          (case match part s index of
             None \<Rightarrow> Inl TypeError
           | Some m \<Rightarrow> parseFilter_loop rest s (index + consumed m) (parts @ [p])))"

definition parseFilter :: "'ctx SyntaxPart list \<Rightarrow> string \<Rightarrow> error + Parsed list" where
  "parseFilter filterSyntax s = parseFilter_loop filterSyntax s 0 []"

text \<open>
  \<^verbatim>\<open>tryParseFilter\<close>: the same loop with a \<^verbatim>\<open>break\<close> at the first part whose match
  is not full.
\<close>

fun tryParseFilter_loop ::
    "'ctx SyntaxPart list \<Rightarrow> string \<Rightarrow> nat \<Rightarrow> Parsed list \<Rightarrow> error + Parsed list" where
  "tryParseFilter_loop [] s index parts = Inr parts"
| "tryParseFilter_loop (part # rest) s index parts =
     (case match part s index of
        None \<Rightarrow> Inr parts
      | Some m \<Rightarrow>
          if type m \<noteq> full then Inr parts
          else (case parse part s index of
                  Inl e \<Rightarrow> Inl e
                | Inr p \<Rightarrow> tryParseFilter_loop rest s (index + consumed m) (parts @ [p])))"

definition tryParseFilter :: "'ctx SyntaxPart list \<Rightarrow> string \<Rightarrow> error + Parsed list" where
  "tryParseFilter filterSyntax s = tryParseFilter_loop filterSyntax s 0 []"

text \<open>
  The filter definition of the status filter. Its suggestion generator reads the collected
  events, which are not modelled: it is a parameter here.
\<close>

definition StatusFilter_filterSyntax :: "'ctx Generator \<Rightarrow> 'ctx SyntaxPart list" where
  "StatusFilter_filterSyntax gen =
     [FixedStringSyntax ''status'',
      StringOptionsSyntax [''='', ''!='', ''>='', ''>'', ''<='', ''<''],
      FixedLengthNumberSyntax 3 (Some gen)]"

section \<open>The fixed keyword over UTF-16 code units\<close>

text \<open>
  \<^verbatim>\<open>FixedStringSyntax.match\<close> once more, on strings of UTF-16 code units (natural numbers)
  and with \<^verbatim>\<open>String.prototype.toLowerCase\<close> as a parameter \<open>lower\<close>, a function from
  strings to strings that may change the length. As in the source, the keyword is
  lower-cased as a whole and read at one position, which is undefined past its end, and
  each character of the input is lower-cased on its own, to a string; the loop still
  runs over the length of the keyword as configured.
\<close>

type_synonym units = "nat list"

function FixedStringSyntax_match_units_loop ::
    "(units \<Rightarrow> units) \<Rightarrow> units \<Rightarrow> units \<Rightarrow> units \<Rightarrow> nat \<Rightarrow> nat \<Rightarrow> nat option" where
  "FixedStringSyntax_match_units_loop lower matcher expected s index i =
     (if i - index < length matcher \<and> i < length s
      then (if (if i - index < length expected then Some [expected ! (i - index)] else None)
                 \<noteq> Some (lower [s ! i])
            then None
            else FixedStringSyntax_match_units_loop lower matcher expected s index (Suc i))
      else Some i)"
  by pat_completeness auto
termination
  by (relation "measure (\<lambda>(l, m, e, s, index, i). length s - i)") auto

declare FixedStringSyntax_match_units_loop.simps [simp del]

definition FixedStringSyntax_match_units ::
    "(units \<Rightarrow> units) \<Rightarrow> units \<Rightarrow> units \<Rightarrow> nat \<Rightarrow> SyntaxMatch option" where
  "FixedStringSyntax_match_units lower matcher s index =
     (let expected = lower matcher
      in case FixedStringSyntax_match_units_loop lower matcher expected s index index of
           None \<Rightarrow> None
         | Some i \<Rightarrow>
             (let consumedChars = i - index
              in Some \<lparr>type = (if consumedChars = length matcher then full else partial),
                       consumed = consumedChars\<rparr>))"

text \<open>The code units of a string of the 8-bit model.\<close>

definition units_of :: "string \<Rightarrow> units" where
  "units_of s = map of_char s"

section \<open>Cursor positions of a composition\<close>

text \<open>
  Two notions used to state what the composition loops do. \<open>isFull part s index\<close>:
  the match of the part at the cursor is there and is full. \<open>cursorAt parts s index n\<close>:
  the cursor in front of fragment \<open>n\<close> when the loop starts at \<open>index\<close> and moves on
  by the consumed count of each match (a cursor stays where a match is absent).
\<close>

definition isFull :: "'ctx SyntaxPart \<Rightarrow> string \<Rightarrow> nat \<Rightarrow> bool" where
  "isFull part s index =
     (case match part s index of None \<Rightarrow> False | Some m \<Rightarrow> type m = full)"

fun cursorAt :: "'ctx SyntaxPart list \<Rightarrow> string \<Rightarrow> nat \<Rightarrow> nat \<Rightarrow> nat" where
  "cursorAt parts s index 0 = index"
| "cursorAt [] s index (Suc n) = index"
| "cursorAt (part # rest) s index (Suc n) =
     (case match part s index of
        None \<Rightarrow> index
      | Some m \<Rightarrow> cursorAt rest s (index + consumed m) n)"

section \<open>What the loops compute\<close>

lemma getStringAt_loop_run:
  "getStringAt_loop s rs i =
     i + length (takeWhile (\<lambda>c. list_ex (\<lambda>r. matchesRange (of_char c) r) rs) (drop i s))"
proof (induction s rs i rule: getStringAt_loop.induct)
  case (1 s rs i)
  show ?case
  proof (cases "i < length s")
    case True
    then have d: "drop i s = s ! i # drop (Suc i) s"
      by (simp add: Cons_nth_drop_Suc)
    show ?thesis
    proof (cases "list_ex (\<lambda>r. matchesRange (of_char (s ! i)) r) rs")
      case True
      with \<open>i < length s\<close> "1.IH" d show ?thesis
        by (subst getStringAt_loop.simps) simp
    next
      case False
      with \<open>i < length s\<close> d show ?thesis
        by (subst getStringAt_loop.simps) simp
    qed
  next
    case False
    then show ?thesis
      by (subst getStringAt_loop.simps) simp
  qed
qed

lemma getStringAt_run:
  "getStringAt s index rs =
     (let run = takeWhile (\<lambda>c. list_ex (\<lambda>r. matchesRange (of_char c) r) rs) (drop index s)
      in if run \<noteq> [] then Some run
         else if index = length s then Some []
         else None)"
proof -
  let ?run = "takeWhile (\<lambda>c. list_ex (\<lambda>r. matchesRange (of_char c) r) rs) (drop index s)"
  have "take (length ?run) (drop index s) = ?run"
    by (metis takeWhile_eq_take)
  then show ?thesis
    by (simp add: getStringAt_def getStringAt_loop_run substring_def Let_def)
qed

lemma FixedStringSyntax_match_loop_eq:
  "index \<le> i \<Longrightarrow>
   FixedStringSyntax_match_loop matcher expected s index i =
     (if \<exists>j. i \<le> j \<and> j - index < length matcher \<and> j < length s \<and>
             expected ! (j - index) \<noteq> toLowerCase_char (s ! j)
      then None
      else Some (max i (min (index + length matcher) (length s))))"
proof (induction matcher expected s index i rule: FixedStringSyntax_match_loop.induct)
  case (1 matcher expected s index i)
  let ?bad = "\<lambda>j. j - index < length matcher \<and> j < length s \<and>
             expected ! (j - index) \<noteq> toLowerCase_char (s ! j)"
  show ?case
  proof (cases "i - index < length matcher \<and> i < length s")
    case inside: True
    show ?thesis
    proof (cases "expected ! (i - index) \<noteq> toLowerCase_char (s ! i)")
      case True
      with inside have "\<exists>j. i \<le> j \<and> ?bad j" by blast
      moreover from True inside
      have "FixedStringSyntax_match_loop matcher expected s index i = None"
        by (subst FixedStringSyntax_match_loop.simps) simp
      ultimately show ?thesis by simp
    next
      case False
      have step: "FixedStringSyntax_match_loop matcher expected s index i =
                  FixedStringSyntax_match_loop matcher expected s index (Suc i)"
        using False inside by (subst FixedStringSyntax_match_loop.simps) simp
      have ex: "(\<exists>j. i \<le> j \<and> ?bad j) = (\<exists>j. Suc i \<le> j \<and> ?bad j)"
      proof
        assume "\<exists>j. i \<le> j \<and> ?bad j"
        then obtain j where j: "i \<le> j" "?bad j" by blast
        with False have "j \<noteq> i" by auto
        with j show "\<exists>j. Suc i \<le> j \<and> ?bad j" by (intro exI[of _ j]) simp
      next
        assume "\<exists>j. Suc i \<le> j \<and> ?bad j"
        then show "\<exists>j. i \<le> j \<and> ?bad j" using Suc_leD by blast
      qed
      have mx: "max i (min (index + length matcher) (length s)) =
                max (Suc i) (min (index + length matcher) (length s))"
        using inside "1.prems" by (auto simp: max_def min_def)
      from "1.IH"[OF inside] False "1.prems"
      have "FixedStringSyntax_match_loop matcher expected s index (Suc i) =
            (if \<exists>j. Suc i \<le> j \<and> ?bad j then None
             else Some (max (Suc i) (min (index + length matcher) (length s))))"
        by simp
      then show ?thesis by (simp only: step ex mx)
    qed
  next
    case outside: False
    then have "\<not> (\<exists>j. i \<le> j \<and> ?bad j)"
      using "1.prems" by auto
    moreover from outside "1.prems"
    have "max i (min (index + length matcher) (length s)) = i"
      by (auto simp: max_def min_def)
    moreover from outside
    have "FixedStringSyntax_match_loop matcher expected s index i = Some i"
      by (subst FixedStringSyntax_match_loop.simps) auto
    ultimately show ?thesis by simp
  qed
qed


lemma FixedStringSyntax_match_eq:
  "FixedStringSyntax_match matcher s index =
     (if \<exists>j. j < length matcher \<and> index + j < length s \<and>
             toLowerCase_char (matcher ! j) \<noteq> toLowerCase_char (s ! (index + j))
      then None
      else Some \<lparr>type = (if length matcher \<le> length s - index then full else partial),
                 consumed = min (length matcher) (length s - index)\<rparr>)"
proof -
  let ?bad = "\<lambda>j. j - index < length matcher \<and> j < length s \<and>
             toLowerCase matcher ! (j - index) \<noteq> toLowerCase_char (s ! j)"
  have ex: "(\<exists>j. index \<le> j \<and> ?bad j) =
            (\<exists>j. j < length matcher \<and> index + j < length s \<and>
               toLowerCase_char (matcher ! j) \<noteq> toLowerCase_char (s ! (index + j)))"
  proof
    assume "\<exists>j. index \<le> j \<and> ?bad j"
    then obtain j where j: "index \<le> j" "j - index < length matcher" "j < length s"
        "toLowerCase matcher ! (j - index) \<noteq> toLowerCase_char (s ! j)" by blast
    then have "j - index < length matcher \<and> index + (j - index) < length s \<and>
        toLowerCase_char (matcher ! (j - index)) \<noteq> toLowerCase_char (s ! (index + (j - index)))"
      by (simp add: toLowerCase_def)
    then show "\<exists>j. j < length matcher \<and> index + j < length s \<and>
               toLowerCase_char (matcher ! j) \<noteq> toLowerCase_char (s ! (index + j))"
      by blast
  next
    assume "\<exists>j. j < length matcher \<and> index + j < length s \<and>
               toLowerCase_char (matcher ! j) \<noteq> toLowerCase_char (s ! (index + j))"
    then obtain j where "j < length matcher" "index + j < length s"
        "toLowerCase_char (matcher ! j) \<noteq> toLowerCase_char (s ! (index + j))" by blast
    then have "index \<le> index + j \<and> ?bad (index + j)"
      by (simp add: toLowerCase_def)
    then show "\<exists>j. index \<le> j \<and> ?bad j" by blast
  qed
  have c: "max index (min (index + length matcher) (length s)) - index =
           min (length matcher) (length s - index)"
    by (auto simp: max_def min_def)
  have t: "(min (length matcher) (length s - index) = length matcher) =
           (length matcher \<le> length s - index)"
    by (auto simp: min_def)
  show ?thesis
    unfolding FixedStringSyntax_match_def Let_def
    by (simp only: FixedStringSyntax_match_loop_eq[OF order_refl] ex c t
          option.case if_distrib[of "case_option _ _"] cong: if_cong)
qed

subsection \<open>The greatest element\<close>

lemma maxBy_loop_None: "(maxBy_loop f xs r = None) = (xs = [] \<and> r = None)"
  by (induction xs arbitrary: r) (auto split: option.splits)

lemma maxBy_loop_Some:
  "maxBy_loop f xs r = Some m \<Longrightarrow>
     (m \<in> set xs \<or> r = Some m) \<and> (\<forall>x \<in> set xs. f x \<le> f m) \<and>
     (\<forall>r'. r = Some r' \<longrightarrow> f r' \<le> f m)"
proof (induction xs arbitrary: r)
  case Nil
  then show ?case by simp
next
  case (Cons x xs)
  show ?case
  proof (cases r)
    case None
    with Cons.prems have "maxBy_loop f xs (Some x) = Some m" by simp
    from Cons.IH[OF this] None show ?thesis by auto
  next
    case (Some r')
    show ?thesis
    proof (cases "f x > f r'")
      case True
      with Cons.prems Some have "maxBy_loop f xs (Some x) = Some m" by simp
      from Cons.IH[OF this] Some True show ?thesis by auto
    next
      case False
      with Cons.prems Some have "maxBy_loop f xs (Some r') = Some m" by simp
      from Cons.IH[OF this] Some False show ?thesis by auto
    qed
  qed
qed

lemma maxBy_None: "(maxBy xs f = None) = (xs = [])"
  by (simp add: maxBy_def maxBy_loop_None)

lemma maxBy_Some: "maxBy xs f = Some m \<Longrightarrow> m \<in> set xs \<and> (\<forall>x \<in> set xs. f x \<le> f m)"
  using maxBy_loop_Some[of f xs None m] by (simp add: maxBy_def)

lemma set_present:
  "set (List.map_filter (\<lambda>m. m) rs) = {m. Some m \<in> set rs}"
  by (induction rs) (auto simp: map_filter_simps split: option.splits)

lemma StringOptionsSyntax_match_eq:
  "StringOptionsSyntax_match options s index =
     (let matches = List.map_filter (\<lambda>m. m) (map (\<lambda>m. FixedStringSyntax_match m s index) options)
      in maxBy (if filter (\<lambda>m. type m = full) matches \<noteq> []
                then filter (\<lambda>m. type m = full) matches
                else filter (\<lambda>m. type m \<noteq> full) matches) consumed)"
  by (simp add: StringOptionsSyntax_match_def Let_def comp_def)

subsection \<open>Case folding and match types\<close>

lemma MatchType_not_full: "(t \<noteq> full) = (t = partial)"
  by (cases t) simp_all

lemma toLowerCase_substring_eq:
  "(toLowerCase (substring s index (index + length matcher)) = toLowerCase matcher) =
     (length matcher \<le> length s - index \<and>
      (\<forall>j. j < length matcher \<longrightarrow>
         toLowerCase_char (s ! (index + j)) = toLowerCase_char (matcher ! j)))"
  by (auto simp: toLowerCase_def substring_def list_eq_iff_nth_eq min_def)

section \<open>The fixed keyword\<close>

text \<open>
  On strings of code units below 256, where lower-casing works character by character
  and keeps the length: \<^verbatim>\<open>match\<close> is full exactly when the substring of the input from
  \<open>index\<close> to \<open>index + length matcher\<close> equals the keyword after lower-casing both; it
  is absent exactly when some character compared before the end of the input differs
  from the keyword's character at that place after lower-casing both; in every other case
  it is a partial match that consumes all the characters from \<open>index\<close> to the end of the
  input.
\<close>

lemma FixedStringSyntax_match_below_256:
  "((\<exists>c. FixedStringSyntax_match matcher s index = Some \<lparr>type = full, consumed = c\<rparr>) =
      (toLowerCase (substring s index (index + length matcher)) = toLowerCase matcher)) \<and>
   ((FixedStringSyntax_match matcher s index = None) =
      (\<exists>j. j < length matcher \<and> index + j < length s \<and>
           toLowerCase_char (s ! (index + j)) \<noteq> toLowerCase_char (matcher ! j))) \<and>
   ((\<forall>c. FixedStringSyntax_match matcher s index \<noteq> Some \<lparr>type = full, consumed = c\<rparr>) \<and>
    FixedStringSyntax_match matcher s index \<noteq> None \<longrightarrow>
      FixedStringSyntax_match matcher s index =
        Some \<lparr>type = partial, consumed = length s - index\<rparr>)"
proof -
  let ?absent = "\<exists>j. j < length matcher \<and> index + j < length s \<and>
           toLowerCase_char (s ! (index + j)) \<noteq> toLowerCase_char (matcher ! j)"
  have a: "?absent = (\<exists>j. j < length matcher \<and> index + j < length s \<and>
           toLowerCase_char (matcher ! j) \<noteq> toLowerCase_char (s ! (index + j)))"
    by metis
  have m: "FixedStringSyntax_match matcher s index =
     (if ?absent then None
      else Some \<lparr>type = (if length matcher \<le> length s - index then full else partial),
                 consumed = min (length matcher) (length s - index)\<rparr>)"
    by (simp only: FixedStringSyntax_match_eq a)
  show ?thesis
  proof (cases ?absent)
    case True
    then have "\<not> (length matcher \<le> length s - index \<and>
      (\<forall>j. j < length matcher \<longrightarrow>
         toLowerCase_char (s ! (index + j)) = toLowerCase_char (matcher ! j)))"
      by blast
    with True m show ?thesis
      by (simp only: toLowerCase_substring_eq) simp
  next
    case False
    then have all: "length matcher \<le> length s - index \<Longrightarrow>
      (\<forall>j. j < length matcher \<longrightarrow>
         toLowerCase_char (s ! (index + j)) = toLowerCase_char (matcher ! j))"
      by (metis add.commute less_diff_conv less_le_trans)
    show ?thesis
    proof (cases "length matcher \<le> length s - index")
      case True
      with all False m show ?thesis
        by (simp only: toLowerCase_substring_eq) (simp add: min_def)
    next
      case short: False
      with False m show ?thesis
        by (simp only: toLowerCase_substring_eq) (simp add: min_def)
    qed
  qed
qed

text \<open>
  The model on 8-bit characters is the model on code units, restricted: for every
  lower-casing function that, on strings of code units below 256, is the character-wise
  one, the two give the same match.
\<close>

lemma units_loop_eq:
  assumes "\<And>u. lower (units_of u) = units_of (toLowerCase u)"
  shows "index \<le> i \<Longrightarrow>
     FixedStringSyntax_match_units_loop lower (units_of matcher) (units_of (toLowerCase matcher))
       (units_of s) index i =
     FixedStringSyntax_match_loop matcher (toLowerCase matcher) s index i"
proof (induction matcher "toLowerCase matcher" s index i rule: FixedStringSyntax_match_loop.induct)
  case (1 matcher s index i)
  show ?case
  proof (cases "i - index < length matcher \<and> i < length s")
    case True
    then have l: "lower [units_of s ! i] = [of_char (toLowerCase_char (s ! i))]"
      using assms[of "[s ! i]"] by (simp add: units_of_def toLowerCase_def)
    show ?thesis
    proof (cases "toLowerCase matcher ! (i - index) \<noteq> toLowerCase_char (s ! i)")
      case bad: True
      with True l show ?thesis
        by (subst FixedStringSyntax_match_units_loop.simps, subst FixedStringSyntax_match_loop.simps)
           (simp add: units_of_def toLowerCase_def)
    next
      case good: False
      from "1.hyps"[OF True good] "1.prems" have
        "FixedStringSyntax_match_units_loop lower (units_of matcher) (units_of (toLowerCase matcher))
           (units_of s) index (Suc i) =
         FixedStringSyntax_match_loop matcher (toLowerCase matcher) s index (Suc i)"
        by simp
      with True good l show ?thesis
        by (subst FixedStringSyntax_match_units_loop.simps, subst FixedStringSyntax_match_loop.simps)
           (simp add: units_of_def toLowerCase_def)
    qed
  next
    case False
    then show ?thesis
      by (subst FixedStringSyntax_match_units_loop.simps, subst FixedStringSyntax_match_loop.simps)
         (auto simp: units_of_def)
  qed
qed

lemma FixedStringSyntax_match_units_below_256:
  assumes "\<And>u. lower (units_of u) = units_of (toLowerCase u)"
  shows "FixedStringSyntax_match_units lower (units_of matcher) (units_of s) index =
         FixedStringSyntax_match matcher s index"
proof -
  have e: "lower (units_of matcher) = units_of (toLowerCase matcher)"
    by (rule assms)
  have len: "length (units_of matcher) = length matcher"
    by (simp add: units_of_def)
  show ?thesis
    by (simp only: FixedStringSyntax_match_units_def FixedStringSyntax_match_def Let_def e
          units_loop_eq[OF assms order_refl] len)
qed



section \<open>The enumerated options\<close>

text \<open>
  Claim C5. For a \<^verbatim>\<open>StringOptionsSyntax\<close> and every string and index: take the
  \<^verbatim>\<open>FixedStringSyntax\<close> match of every configured option at the position and drop the
  absent ones; the surviving set is the full results when there is one, and the partial
  results otherwise. \<^verbatim>\<open>match\<close> is undefined when the surviving set is empty, and
  else it is a member of the surviving set whose consumed count no other member exceeds.
\<close>

theorem StringOptionsSyntax_match_longest_best:
  "(let results = map (\<lambda>opt. FixedStringSyntax_match opt s index) options;
        fulls = {m. Some m \<in> set results \<and> type m = full};
        partials = {m. Some m \<in> set results \<and> type m = partial};
        surviving = (if fulls \<noteq> {} then fulls else partials)
    in case StringOptionsSyntax_match options s index of
         None \<Rightarrow> surviving = {}
       | Some best \<Rightarrow> best \<in> surviving \<and> (\<forall>m \<in> surviving. consumed m \<le> consumed best))"
proof -
  define results where "results = map (\<lambda>opt. FixedStringSyntax_match opt s index) options"
  define matches where "matches = List.map_filter (\<lambda>m. m) results"
  define fullMatches where "fullMatches = filter (\<lambda>m. type m = full) matches"
  define partialMatches where "partialMatches = filter (\<lambda>m. type m \<noteq> full) matches"
  define bestMatches where
    "bestMatches = (if fullMatches \<noteq> [] then fullMatches else partialMatches)"
  have sf: "set fullMatches = {m. Some m \<in> set results \<and> type m = full}"
    by (auto simp: fullMatches_def matches_def set_present)
  have sp: "set partialMatches = {m. Some m \<in> set results \<and> type m = partial}"
    by (auto simp: partialMatches_def matches_def set_present MatchType_not_full)
  have ne: "(fullMatches \<noteq> []) = ({m. Some m \<in> set results \<and> type m = full} \<noteq> {})"
    using sf by (metis set_empty)
  have sb: "set bestMatches =
      (if {m. Some m \<in> set results \<and> type m = full} \<noteq> {}
       then {m. Some m \<in> set results \<and> type m = full}
       else {m. Some m \<in> set results \<and> type m = partial})"
    unfolding bestMatches_def using sf sp ne by auto
  have r: "StringOptionsSyntax_match options s index = maxBy bestMatches consumed"
    by (simp add: StringOptionsSyntax_match_eq bestMatches_def fullMatches_def
        partialMatches_def matches_def results_def Let_def)
  have "case maxBy bestMatches consumed of
          None \<Rightarrow> set bestMatches = {}
        | Some best \<Rightarrow> best \<in> set bestMatches \<and>
            (\<forall>m \<in> set bestMatches. consumed m \<le> consumed best)"
    using maxBy_None[of bestMatches consumed] maxBy_Some[of bestMatches consumed]
    by (cases "maxBy bestMatches consumed") auto
  then show ?thesis
    unfolding Let_def r sb results_def[symmetric] .
qed

text \<open>
  The operators of the status filter at \<^verbatim>\<open>status>=404\<close>: both \<^verbatim>\<open>>=\<close> and \<^verbatim>\<open>>\<close> match
  in full, and the longer one is returned.
\<close>

theorem StringOptionsSyntax_match_longest_best_witness:
  "StringOptionsSyntax_match [''='', ''!='', ''>='', ''>'', ''<='', ''<''] ''status>=404'' 6 =
     Some \<lparr>type = full, consumed = 2\<rparr> \<and>
   FixedStringSyntax_match ''>'' ''status>=404'' 6 = Some \<lparr>type = full, consumed = 1\<rparr> \<and>
   consumed \<lparr>type = full, consumed = 1\<rparr> \<le> consumed \<lparr>type = full, consumed = 2\<rparr>"
proof -
  let ?opts = "[''='', ''!='', ''>='', ''>'', ''<='', ''<'']"
  let ?s = "''status>=404''"
  have b: "StringOptionsSyntax_match ?opts ?s 6 = Some \<lparr>type = full, consumed = 2\<rparr>"
    by code_simp
  have g: "FixedStringSyntax_match ''>'' ?s 6 = Some \<lparr>type = full, consumed = 1\<rparr>"
    by code_simp
  then have inres: "Some \<lparr>type = full, consumed = 1\<rparr> \<in>
      set (map (\<lambda>opt. FixedStringSyntax_match opt ?s 6) ?opts)"
    by simp
  then have ne: "{m. Some m \<in> set (map (\<lambda>opt. FixedStringSyntax_match opt ?s 6) ?opts) \<and>
      type m = full} \<noteq> {}"
    by force
  from StringOptionsSyntax_match_longest_best[of ?s 6 ?opts] b ne inres
  have "consumed \<lparr>type = full, consumed = 1\<rparr> \<le> consumed \<lparr>type = full, consumed = 2\<rparr>"
    unfolding Let_def by (simp only: option.case if_True) force
  with b g show ?thesis by blast
qed

section \<open>The free-form string\<close>

lemma takeWhile_run_allowed:
  "j < length (takeWhile P (drop index s)) \<Longrightarrow> P (s ! (index + j))"
proof -
  assume j: "j < length (takeWhile P (drop index s))"
  then have "takeWhile P (drop index s) ! j \<in> set (takeWhile P (drop index s))"
    by (rule nth_mem)
  then have "P (takeWhile P (drop index s) ! j)"
    by (rule set_takeWhileD[THEN conjunct2])
  moreover have "takeWhile P (drop index s) ! j = drop index s ! j"
    using j by (rule takeWhile_nth)
  moreover have "length (takeWhile P (drop index s)) \<le> length s - index"
    using length_takeWhile_le[of P "drop index s"] by simp
  then have "drop index s ! j = s ! (index + j)"
    using j by simp
  ultimately show ?thesis by simp
qed

lemma takeWhile_run_length:
  "index \<le> length s \<Longrightarrow> index + length (takeWhile P (drop index s)) \<le> length s"
  using length_takeWhile_le[of P "drop index s"] by simp

lemma takeWhile_run_empty:
  "index < length s \<Longrightarrow> \<not> P (s ! index) \<Longrightarrow> takeWhile P (drop index s) = []"
  by (simp add: Cons_nth_drop_Suc[symmetric])

lemma StringSyntax_match_run:
  "StringSyntax_match allowEmpty allowedChars s index =
     (let run = takeWhile (\<lambda>c. list_ex (\<lambda>r. matchesRange (of_char c) r)
                    (allowedCharRanges allowedChars)) (drop index s)
      in if run \<noteq> [] then Some \<lparr>type = full, consumed = length run\<rparr>
         else if index = length s
         then Some \<lparr>type = (if allowEmpty then full else partial), consumed = 0\<rparr>
         else None)"
  by (simp add: StringSyntax_match_def getStringAt_run Let_def)

lemma StringSyntax_match_consumed:
  assumes "StringSyntax_match allowEmpty allowedChars s index = Some m"
  shows "index + consumed m \<le> length s"
    and "\<forall>j. j < consumed m \<longrightarrow>
          list_ex (\<lambda>r. matchesRange (of_char (s ! (index + j))) r)
            (allowedCharRanges allowedChars)"
proof -
  let ?P = "\<lambda>c. list_ex (\<lambda>r. matchesRange (of_char c) r) (allowedCharRanges allowedChars)"
  let ?run = "takeWhile ?P (drop index s)"
  from assms have c: "consumed m = length ?run"
    unfolding StringSyntax_match_run Let_def by (auto split: if_splits)
  from assms have r: "?run \<noteq> [] \<or> index = length s"
    unfolding StringSyntax_match_run Let_def by (auto split: if_splits)
  have "index \<le> length s"
  proof (rule ccontr)
    assume n: "\<not> index \<le> length s"
    then have "drop index s = []" by simp
    then have "?run = []" by (simp only: takeWhile.simps)
    with r n show False by simp
  qed
  then show "index + consumed m \<le> length s"
    unfolding c by (rule takeWhile_run_length)
  show "\<forall>j. j < consumed m \<longrightarrow> ?P (s ! (index + j))"
    unfolding c by (intro allI impI) (rule takeWhile_run_allowed)
qed

lemma StringSyntax_match_at_end:
  "StringSyntax_match allowEmpty allowedChars s (length s) =
     Some \<lparr>type = (if allowEmpty then full else partial), consumed = 0\<rparr>"
  by (simp add: StringSyntax_match_run)

lemma StringSyntax_match_disallowed:
  assumes "index < length s"
      and "\<not> list_ex (\<lambda>r. matchesRange (of_char (s ! index)) r) (allowedCharRanges allowedChars)"
  shows "StringSyntax_match allowEmpty allowedChars s index = None"
proof -
  have "takeWhile (\<lambda>c. list_ex (\<lambda>r. matchesRange (of_char c) r)
          (allowedCharRanges allowedChars)) (drop index s) = []"
    using assms by (rule takeWhile_run_empty)
  with assms(1) show ?thesis
    by (simp add: StringSyntax_match_run)
qed

text \<open>
  Claim C6. For a \<^verbatim>\<open>StringSyntax\<close> with its allowed character ranges and every string
  and index: every character that \<^verbatim>\<open>match\<close> consumes lies in the string and in an
  allowed range; at the end of the string, where nothing is consumed, the result is full
  when \<^verbatim>\<open>allowEmpty\<close> is set and partial otherwise; and when input remains and the
  character at the index is not allowed, so that nothing is consumed, the result is
  absent.
\<close>

theorem StringSyntax_match_allowed_only:
  "(\<forall>m. StringSyntax_match allowEmpty allowedChars s index = Some m \<longrightarrow>
       index + consumed m \<le> length s \<and>
       (\<forall>j. j < consumed m \<longrightarrow>
          list_ex (\<lambda>r. matchesRange (of_char (s ! (index + j))) r)
            (allowedCharRanges allowedChars))) \<and>
   StringSyntax_match allowEmpty allowedChars s (length s) =
     Some \<lparr>type = (if allowEmpty then full else partial), consumed = 0\<rparr> \<and>
   (index < length s \<and>
    \<not> list_ex (\<lambda>r. matchesRange (of_char (s ! index)) r) (allowedCharRanges allowedChars) \<longrightarrow>
      StringSyntax_match allowEmpty allowedChars s index = None)"
proof (intro conjI)
  show "\<forall>m. StringSyntax_match allowEmpty allowedChars s index = Some m \<longrightarrow>
       index + consumed m \<le> length s \<and>
       (\<forall>j. j < consumed m \<longrightarrow>
          list_ex (\<lambda>r. matchesRange (of_char (s ! (index + j))) r)
            (allowedCharRanges allowedChars))"
    using StringSyntax_match_consumed by blast
  show "StringSyntax_match allowEmpty allowedChars s (length s) =
     Some \<lparr>type = (if allowEmpty then full else partial), consumed = 0\<rparr>"
    by (rule StringSyntax_match_at_end)
  show "index < length s \<and>
    \<not> list_ex (\<lambda>r. matchesRange (of_char (s ! index)) r) (allowedCharRanges allowedChars) \<longrightarrow>
      StringSyntax_match allowEmpty allowedChars s index = None"
    using StringSyntax_match_disallowed by blast
qed

text \<open>
  The letters-only string of the method filter at \<^verbatim>\<open>method=GE 1\<close>: two letters are
  consumed, the space after them is a rejection; the query string, which allows the
  empty value, is a full match at the end of \<^verbatim>\<open>query=\<close>.
\<close>

theorem StringSyntax_match_allowed_only_witness:
  "StringSyntax_match False (Some [(97, 122), (65, 90)]) ''method=GE 1'' 7 =
     Some \<lparr>type = full, consumed = 2\<rparr> \<and>
   list_ex (\<lambda>r. matchesRange (of_char (''method=GE 1'' ! (7 + 1))) r)
     (allowedCharRanges (Some [(97, 122), (65, 90)])) \<and>
   StringSyntax_match False (Some [(97, 122), (65, 90)]) ''method=GE 1'' 9 = None \<and>
   StringSyntax_match True None ''query='' (length ''query='') =
     Some \<lparr>type = full, consumed = 0\<rparr>"
proof -
  let ?ac = "Some [(97, 122), (65, 90)] :: CharRange list option"
  let ?s = "''method=GE 1''"
  have m: "StringSyntax_match False ?ac ?s 7 = Some \<lparr>type = full, consumed = 2\<rparr>"
    by code_simp
  with StringSyntax_match_allowed_only[of False ?ac ?s 7]
  have "\<forall>j. j < consumed \<lparr>type = full, consumed = 2\<rparr> \<longrightarrow>
          list_ex (\<lambda>r. matchesRange (of_char (?s ! (7 + j))) r) (allowedCharRanges ?ac)"
    by blast
  then have a: "list_ex (\<lambda>r. matchesRange (of_char (?s ! (7 + 1))) r) (allowedCharRanges ?ac)"
    by (elim allE[of _ 1]) simp
  have "9 < length ?s \<and>
        \<not> list_ex (\<lambda>r. matchesRange (of_char (?s ! 9)) r) (allowedCharRanges ?ac)"
    by code_simp
  with StringSyntax_match_allowed_only[of False ?ac ?s 9]
  have n: "StringSyntax_match False ?ac ?s 9 = None"
    by blast
  from StringSyntax_match_allowed_only[of True None "''query=''" 0]
  have e: "StringSyntax_match True None ''query='' (length ''query='') =
     Some \<lparr>type = full, consumed = 0\<rparr>"
    by simp
  from m a n e show ?thesis by blast
qed

section \<open>The fixed-length number\<close>

lemma matchesRange_NUMBER_CHARS: "matchesRange (of_char c) NUMBER_CHARS = isDigit c"
  by (simp add: matchesRange_def NUMBER_CHARS_def isDigit_def)

lemma getNumberAt_run:
  "getNumberAt s index =
     (let run = takeWhile isDigit (drop index s)
      in if run \<noteq> [] then Some run
         else if index = length s then Some []
         else None)"
  by (simp add: getNumberAt_def getStringAt_run matchesRange_NUMBER_CHARS Let_def)

lemma no_non_digit: "(\<not> list_ex (\<lambda>c. \<not> matchesRange (of_char c) NUMBER_CHARS) sg) = list_all isDigit sg"
  by (simp add: matchesRange_NUMBER_CHARS list_ex_iff list_all_iff)

text \<open>
  Claim C9. For a \<^verbatim>\<open>FixedLengthNumberSyntax\<close> of required length \<open>N\<close>: when the run
  of digits typed at the index has a length \<open>k\<close> with \<open>0 < k < N\<close>, and either no context
  or no generator is given or none of the generator's candidates is valid (starts with
  the typed digits, has length \<open>N\<close> and holds digits only), \<^verbatim>\<open>getSuggestions\<close> returns
  exactly one suggestion, not a template, whose \<^verbatim>\<open>showAs\<close> and \<^verbatim>\<open>value\<close> are both the
  typed digits followed by zeros up to the length \<open>N\<close>.
\<close>

theorem FixedLengthNumberSyntax_getSuggestions_zero_padded:
  assumes "typed = takeWhile isDigit (drop index s)"
      and "0 < length typed"
      and "length typed < requiredLength"
      and "\<forall>ctx gen. context = Some ctx \<and> suggestionGenerator = Some gen \<longrightarrow>
             (\<forall>sg \<in> set (gen s index ctx).
                \<not> (startsWith sg typed \<and> length sg = requiredLength \<and> list_all isDigit sg))"
  shows "FixedLengthNumberSyntax_getSuggestions requiredLength suggestionGenerator s index context =
           [\<lparr>showAs = typed @ replicate (requiredLength - length typed) (CHR ''0''),
             value_str = typed @ replicate (requiredLength - length typed) (CHR ''0''),
             template = False\<rparr>]"
proof -
  from assms(1,2) have n: "getNumberAt s index = Some typed" and ne: "typed \<noteq> []"
    by (auto simp: getNumberAt_run Let_def)
  have none: "(case (context, suggestionGenerator) of
       (Some ctx, Some gen) \<Rightarrow>
         map (\<lambda>sg. \<lparr>showAs = sg, value_str = sg, template = False\<rparr>)
           (filter (\<lambda>suggestion.
                (case Some typed of
                   None \<Rightarrow> True
                 | Some typed \<Rightarrow> typed = [] \<or> startsWith suggestion typed) \<and>
                length suggestion = requiredLength \<and>
                \<not> list_ex (\<lambda>c. \<not> matchesRange (of_char c) NUMBER_CHARS) suggestion)
              (gen s index ctx))
     | _ \<Rightarrow> []) = []"
  proof (cases "context")
    case None
    then show ?thesis by simp
  next
    case ctx: (Some ctx)
    show ?thesis
    proof (cases suggestionGenerator)
      case None
      with ctx show ?thesis by simp
    next
      case (Some gen)
      with ctx assms(4) have "\<forall>sg \<in> set (gen s index ctx).
                \<not> (startsWith sg typed \<and> length sg = requiredLength \<and> list_all isDigit sg)"
        by blast
      then have "filter (\<lambda>suggestion. (typed = [] \<or> startsWith suggestion typed) \<and>
                length suggestion = requiredLength \<and>
                \<not> list_ex (\<lambda>c. \<not> matchesRange (of_char c) NUMBER_CHARS) suggestion)
              (gen s index ctx) = []"
        using ne by (simp add: filter_empty_conv no_non_digit)
      with ctx Some show ?thesis by simp
    qed
  qed
  show ?thesis
    unfolding FixedLengthNumberSyntax_getSuggestions_def n Let_def none
    using ne by simp
qed

text \<open>
  The status filter at \<^verbatim>\<open>status=40\<close>: with three candidates of which none is valid,
  and with no context at all, the one suggestion is \<^verbatim>\<open>400\<close>.
\<close>

theorem FixedLengthNumberSyntax_getSuggestions_zero_padded_witness:
  "FixedLengthNumberSyntax_getSuggestions 3 (Some (\<lambda>v i ctx. ctx)) ''status=40'' 7
       (Some [''200'', ''301'', ''4040'']) =
     [\<lparr>showAs = ''400'', value_str = ''400'', template = False\<rparr>] \<and>
   FixedLengthNumberSyntax_getSuggestions 3 (None :: unit Generator option) ''status=40'' 7 None =
     [\<lparr>showAs = ''400'', value_str = ''400'', template = False\<rparr>]"
proof -
  have t: "''40'' = takeWhile isDigit (drop 7 ''status=40'')"
    by code_simp
  have c: "\<forall>ctx gen. Some [''200'', ''301'', ''4040''] = Some ctx \<and>
        Some (\<lambda>(v::string) (i::nat) (ctx::string list). ctx) = Some gen \<longrightarrow>
        (\<forall>sg \<in> set (gen ''status=40'' 7 ctx).
           \<not> (startsWith sg ''40'' \<and> length sg = 3 \<and> list_all isDigit sg))"
    by (simp add: startsWith_def)
  have a: "FixedLengthNumberSyntax_getSuggestions 3 (Some (\<lambda>v i ctx. ctx)) ''status=40'' 7
       (Some [''200'', ''301'', ''4040'']) =
     [\<lparr>showAs = ''400'', value_str = ''400'', template = False\<rparr>]"
    using FixedLengthNumberSyntax_getSuggestions_zero_padded[OF t _ _ c] by simp
  have b: "FixedLengthNumberSyntax_getSuggestions 3 (None :: unit Generator option) ''status=40'' 7 None =
     [\<lparr>showAs = ''400'', value_str = ''400'', template = False\<rparr>]"
    using FixedLengthNumberSyntax_getSuggestions_zero_padded[OF t, of 3 None None] by simp
  from a b show ?thesis by blast
qed

text \<open>
  Claim C2. For a \<^verbatim>\<open>FixedLengthNumberSyntax\<close> of required length \<open>N\<close>, \<^verbatim>\<open>match\<close> is to
  return partial for a run of fewer than \<open>N\<close> digits only when the input ends at the end
  of that run. The code, evaluated at length 3 and the input \<^verbatim>\<open>40X\<close>: the run of two
  digits ends in front of the character \<^verbatim>\<open>X\<close>, not at the end of the input, and the
  result is a partial match of two characters, the same as at the input \<^verbatim>\<open>40\<close>.
\<close>

theorem FixedLengthNumberSyntax_match_partial_before_end:
  "FixedLengthNumberSyntax_match 3 ''40X'' 0 = Some \<lparr>type = partial, consumed = 2\<rparr> \<and>
   0 + consumed \<lparr>type = partial, consumed = 2\<rparr> < length ''40X'' \<and>
   FixedLengthNumberSyntax_match 3 ''40'' 0 = Some \<lparr>type = partial, consumed = 2\<rparr>"
  by code_simp

section \<open>Matching at the end of the input\<close>

lemma StringOptionsSyntax_match_member:
  assumes "StringOptionsSyntax_match options s index = Some m"
  shows "\<exists>opt \<in> set options. FixedStringSyntax_match opt s index = Some m"
proof -
  let ?matches = "List.map_filter (\<lambda>m. m) (map (\<lambda>m. FixedStringSyntax_match m s index) options)"
  from assms have "m \<in> set (if filter (\<lambda>m. type m = full) ?matches \<noteq> []
                then filter (\<lambda>m. type m = full) ?matches
                else filter (\<lambda>m. type m \<noteq> full) ?matches)"
    unfolding StringOptionsSyntax_match_eq Let_def by (rule maxBy_Some[THEN conjunct1])
  then have "m \<in> set ?matches"
    by (auto split: if_splits)
  then have "Some m \<in> set (map (\<lambda>m. FixedStringSyntax_match m s index) options)"
    by (simp add: set_present)
  then show ?thesis by auto
qed









section \<open>Parsing an option\<close>

lemma FixedStringSyntax_match_full:
  assumes "FixedStringSyntax_match matcher s index = Some m" and "type m = full"
  shows "consumed m = length matcher"
    and "index + length matcher \<le> length s \<or> matcher = []"
    and "toLowerCase (substring s index (index + length matcher)) = toLowerCase matcher"
proof -
  let ?absent = "\<exists>j. j < length matcher \<and> index + j < length s \<and>
           toLowerCase_char (matcher ! j) \<noteq> toLowerCase_char (s ! (index + j))"
  from assms(1) have na: "\<not> ?absent"
    unfolding FixedStringSyntax_match_eq by (simp split: if_splits)
  with assms(1) have m: "m = \<lparr>type = (if length matcher \<le> length s - index then full else partial),
                 consumed = min (length matcher) (length s - index)\<rparr>"
    unfolding FixedStringSyntax_match_eq by (simp split: if_splits)
  with assms(2) have le: "length matcher \<le> length s - index"
    by (simp split: if_splits)
  with m show "consumed m = length matcher" by simp
  from le show "index + length matcher \<le> length s \<or> matcher = []"
    by (cases matcher) auto
  from na le have "\<forall>j. j < length matcher \<longrightarrow>
         toLowerCase_char (s ! (index + j)) = toLowerCase_char (matcher ! j)"
    by (metis add.commute less_diff_conv less_le_trans)
  with le show "toLowerCase (substring s index (index + length matcher)) = toLowerCase matcher"
    unfolding toLowerCase_substring_eq by blast
qed

text \<open>
  Claim C10. For a \<^verbatim>\<open>StringOptionsSyntax\<close> whose match at the position is full with
  consumed count \<open>c\<close>, \<^verbatim>\<open>parse\<close> returns the substring of the input from \<open>index\<close> to
  \<open>index + c\<close> as it was typed: \<open>c\<close> characters that equal one of the options after
  lower-casing both, not the option's configured text. \<^verbatim>\<open>FixedStringSyntax.parse\<close>, on a
  full match, returns the configured keyword instead.
\<close>

theorem StringOptionsSyntax_parse_input_text:
  "(StringOptionsSyntax_match options s index = Some m \<and> type m = full \<longrightarrow>
      parse (StringOptionsSyntax options) s index =
        Inr (PString (slice s index (index + consumed m))) \<and>
      length (slice s index (index + consumed m)) = consumed m \<and>
      (\<exists>opt \<in> set options.
         toLowerCase (slice s index (index + consumed m)) = toLowerCase opt)) \<and>
   (FixedStringSyntax_match matcher s index = Some m' \<and> type m' = full \<longrightarrow>
      parse (FixedStringSyntax matcher) s index = Inr (PString matcher))"
proof (intro conjI impI)
  assume a: "StringOptionsSyntax_match options s index = Some m \<and> type m = full"
  then show "parse (StringOptionsSyntax options) s index =
        Inr (PString (slice s index (index + consumed m)))"
    by (simp add: getParsedValue_def)
  from a StringOptionsSyntax_match_member[of options s index m]
  obtain opt where opt: "opt \<in> set options" "FixedStringSyntax_match opt s index = Some m"
    by blast
  from a have f: "type m = full" by simp
  note facts = FixedStringSyntax_match_full[OF opt(2) f]
  from facts(1,2) show "length (slice s index (index + consumed m)) = consumed m"
    by (auto simp: slice_def)
  from facts(1,3) have "toLowerCase (slice s index (index + consumed m)) = toLowerCase opt"
    by (simp add: slice_def substring_def)
  with opt(1) show "\<exists>opt \<in> set options.
         toLowerCase (slice s index (index + consumed m)) = toLowerCase opt"
    by blast
next
  assume "FixedStringSyntax_match matcher s index = Some m' \<and> type m' = full"
  then show "parse (FixedStringSyntax matcher) s index = Inr (PString matcher)"
    by (simp add: getParsedValue_def)
qed

text \<open>
  The protocol filter at \<^verbatim>\<open>protocol=HTTP\<close>: the options parse the input to \<^verbatim>\<open>HTTP\<close>,
  a fixed keyword \<^verbatim>\<open>http\<close> at the same place parses to \<^verbatim>\<open>http\<close>.
\<close>

theorem StringOptionsSyntax_parse_input_text_witness:
  "parse (StringOptionsSyntax [''http'', ''https''] :: unit SyntaxPart) ''protocol=HTTP'' 9 =
     Inr (PString ''HTTP'') \<and>
   parse (FixedStringSyntax ''http'' :: unit SyntaxPart) ''protocol=HTTP'' 9 =
     Inr (PString ''http'')"
proof -
  have o: "StringOptionsSyntax_match [''http'', ''https''] ''protocol=HTTP'' 9 =
             Some \<lparr>type = full, consumed = 4\<rparr> \<and> type \<lparr>type = full, consumed = 4\<rparr> = full"
    by code_simp
  have f: "FixedStringSyntax_match ''http'' ''protocol=HTTP'' 9 =
             Some \<lparr>type = full, consumed = 4\<rparr> \<and> type \<lparr>type = full, consumed = 4\<rparr> = full"
    by code_simp
  have sl: "slice ''protocol=HTTP'' 9 (9 + consumed \<lparr>type = full, consumed = 4\<rparr>) = ''HTTP''"
    by code_simp
  from StringOptionsSyntax_parse_input_text[of "[''http'', ''https'']" "''protocol=HTTP''" 9
      "\<lparr>type = full, consumed = 4\<rparr>" "''http''" "\<lparr>type = full, consumed = 4\<rparr>"] o f
  have "parse (StringOptionsSyntax [''http'', ''https''] :: unit SyntaxPart) ''protocol=HTTP'' 9 =
          Inr (PString (slice ''protocol=HTTP'' 9 (9 + consumed \<lparr>type = full, consumed = 4\<rparr>)))"
    and "parse (FixedStringSyntax ''http'' :: unit SyntaxPart) ''protocol=HTTP'' 9 =
          Inr (PString ''http'')"
    by blast+
  then show ?thesis unfolding sl by blast
qed

section \<open>The composition loops\<close>

lemma parse_full:
  "isFull part s index \<Longrightarrow> \<exists>p. parse part s index = Inr p"
  by (cases part)
     (auto simp: isFull_def getParsedValue_def NumberSyntax_match_def split: option.splits)

lemma parse_not_full:
  "\<not> isFull part s index \<Longrightarrow> parse part s index = Inl ParseError"
  by (cases part)
     (auto simp: isFull_def getParsedValue_def NumberSyntax_match_def split: option.splits)

lemma isFull_match:
  "isFull part s index = (\<exists>m. match part s index = Some m \<and> type m = full)"
  by (auto simp: isFull_def split: option.splits)

lemma FixedLengthNumberSyntax_match_consumed:
  assumes "FixedLengthNumberSyntax_match requiredLength s index = Some m"
      and "index \<le> length s"
  shows "index + consumed m \<le> length s"
proof -
  from assms(1) have "consumed m = length (takeWhile isDigit (drop index s))"
    unfolding FixedLengthNumberSyntax_match_def getNumberAt_run Let_def
    by (auto split: if_splits)
  with assms(2) show ?thesis
    by (simp add: takeWhile_run_length)
qed

lemma FixedStringSyntax_match_consumed:
  assumes "FixedStringSyntax_match matcher s index = Some m"
      and "index \<le> length s"
  shows "index + consumed m \<le> length s"
proof -
  from assms(1) have "consumed m = min (length matcher) (length s - index)"
    unfolding FixedStringSyntax_match_eq by (auto split: if_splits)
  with assms(2) show ?thesis by simp
qed

lemma match_consumed:
  assumes "match part s index = Some m" and "index \<le> length s"
  shows "index + consumed m \<le> length s"
proof (cases part)
  case (FixedStringSyntax matcher)
  with assms show ?thesis by (simp add: FixedStringSyntax_match_consumed)
next
  case (StringSyntax templateText allowEmpty allowedChars gen)
  with assms show ?thesis by (simp add: StringSyntax_match_consumed(1))
next
  case (NumberSyntax name)
  with assms show ?thesis
    by (simp add: NumberSyntax_match_def StringSyntax_match_consumed(1))
next
  case (FixedLengthNumberSyntax requiredLength gen)
  with assms show ?thesis by (simp add: FixedLengthNumberSyntax_match_consumed)
next
  case (StringOptionsSyntax options)
  with assms have "StringOptionsSyntax_match options s index = Some m" by simp
  from StringOptionsSyntax_match_member[OF this] assms(2) show ?thesis
    by (auto simp: FixedStringSyntax_match_consumed)
qed

lemma cursorAt_bound:
  "index \<le> length s \<Longrightarrow> cursorAt parts s index n \<le> length s"
proof (induction parts arbitrary: index n)
  case Nil
  then show ?case by (cases n) simp_all
next
  case (Cons part rest)
  show ?case
  proof (cases n)
    case 0
    with Cons.prems show ?thesis by simp
  next
    case (Suc k)
    show ?thesis
    proof (cases "match part s index")
      case None
      with Suc Cons.prems show ?thesis by simp
    next
      case (Some m)
      from match_consumed[OF Some Cons.prems] have "index + consumed m \<le> length s" .
      from Cons.IH[OF this] Suc Some show ?thesis by simp
    qed
  qed
qed

lemma parseFilter_loop_all_full:
  "\<forall>j<length parts. isFull (parts ! j) s (cursorAt parts s index j) \<Longrightarrow>
   \<exists>vals. parseFilter_loop parts s index acc = Inr (acc @ vals) \<and>
          map Inr vals = map (\<lambda>j. parse (parts ! j) s (cursorAt parts s index j)) [0..<length parts]"
proof (induction parts arbitrary: index acc)
  case Nil
  then show ?case by simp
next
  case (Cons part rest)
  from Cons.prems have "isFull part s index"
    by (auto simp: All_less_Suc2)
  then obtain m p where m: "match part s index = Some m" and p: "parse part s index = Inr p"
    using parse_full[of part s index] by (auto simp: isFull_match)
  from Cons.prems m have "\<forall>j<length rest. isFull (rest ! j) s (cursorAt rest s (index + consumed m) j)"
    by (auto simp: All_less_Suc2)
  from Cons.IH[OF this, of "acc @ [p]"]
  obtain vals where v: "parseFilter_loop rest s (index + consumed m) (acc @ [p]) = Inr ((acc @ [p]) @ vals)"
    and vm: "map Inr vals =
      map (\<lambda>j. parse (rest ! j) s (cursorAt rest s (index + consumed m) j)) [0..<length rest]"
    by blast
  have "parseFilter_loop (part # rest) s index acc = Inr (acc @ (p # vals))"
    using m p v by simp
  moreover have "map Inr (p # vals) =
    map (\<lambda>j. parse ((part # rest) ! j) s (cursorAt (part # rest) s index j)) [0..<length (part # rest)]"
    using m p vm by (simp add: map_upt_Suc del: upt_Suc)
  ultimately show ?case by blast
qed

lemma parseFilter_loop_not_full:
  "\<not> (\<forall>j<length parts. isFull (parts ! j) s (cursorAt parts s index j)) \<Longrightarrow>
   parseFilter_loop parts s index acc = Inl ParseError"
proof (induction parts arbitrary: index acc)
  case Nil
  then show ?case by simp
next
  case (Cons part rest)
  show ?case
  proof (cases "isFull part s index")
    case False
    then show ?thesis by (simp add: parse_not_full)
  next
    case True
    then obtain m p where m: "match part s index = Some m" and p: "parse part s index = Inr p"
      using parse_full[of part s index] by (auto simp: isFull_match)
    from Cons.prems True m
    have "\<not> (\<forall>j<length rest. isFull (rest ! j) s (cursorAt rest s (index + consumed m) j))"
      by (auto simp: All_less_Suc2)
    from Cons.IH[OF this, of "acc @ [p]"] m p show ?thesis by simp
  qed
qed

lemma tryParseFilter_loop_prefix:
  "\<exists>n vals. n \<le> length parts \<and>
     tryParseFilter_loop parts s index acc = Inr (acc @ vals) \<and>
     map Inr vals = map (\<lambda>j. parse (parts ! j) s (cursorAt parts s index j)) [0..<n] \<and>
     (\<forall>j<n. isFull (parts ! j) s (cursorAt parts s index j)) \<and>
     (n < length parts \<longrightarrow> \<not> isFull (parts ! n) s (cursorAt parts s index n))"
proof (induction parts arbitrary: index acc)
  case Nil
  show ?case by simp
next
  case (Cons part rest)
  show ?case
  proof (cases "isFull part s index")
    case False
    then have "tryParseFilter_loop (part # rest) s index acc = Inr (acc @ [])"
      by (auto simp: isFull_def split: option.splits)
    with False show ?thesis
      by (intro exI[of _ 0] exI[of _ "[]"]) simp
  next
    case True
    then obtain m p where m: "match part s index = Some m" "type m = full"
        and p: "parse part s index = Inr p"
      using parse_full[of part s index] by (auto simp: isFull_match)
    from Cons.IH[of "index + consumed m" "acc @ [p]"]
    obtain n vals where n: "n \<le> length rest"
      and t: "tryParseFilter_loop rest s (index + consumed m) (acc @ [p]) = Inr ((acc @ [p]) @ vals)"
      and v: "map Inr vals =
                map (\<lambda>j. parse (rest ! j) s (cursorAt rest s (index + consumed m) j)) [0..<n]"
      and f: "\<forall>j<n. isFull (rest ! j) s (cursorAt rest s (index + consumed m) j)"
      and l: "n < length rest \<longrightarrow> \<not> isFull (rest ! n) s (cursorAt rest s (index + consumed m) n)"
      by blast
    have 1: "Suc n \<le> length (part # rest)" using n by simp
    have 2: "tryParseFilter_loop (part # rest) s index acc = Inr (acc @ (p # vals))"
      using m p t by simp
    have 3: "map Inr (p # vals) =
      map (\<lambda>j. parse ((part # rest) ! j) s (cursorAt (part # rest) s index j)) [0..<Suc n]"
      using m p v by (simp add: map_upt_Suc del: upt_Suc)
    have 4: "\<forall>j<Suc n. isFull ((part # rest) ! j) s (cursorAt (part # rest) s index j)"
      using True m f by (simp add: All_less_Suc2)
    have 5: "Suc n < length (part # rest) \<longrightarrow>
      \<not> isFull ((part # rest) ! Suc n) s (cursorAt (part # rest) s index (Suc n))"
      using m l by simp
    from 1 2 3 4 5 show ?thesis by blast
  qed
qed

lemma parseFilter_loop_tryParseFilter_loop:
  "parseFilter_loop parts s index acc = Inr vals \<Longrightarrow>
   tryParseFilter_loop parts s index acc = Inr vals"
proof (induction parts arbitrary: index acc)
  case Nil
  then show ?case by simp
next
  case (Cons part rest)
  from Cons.prems obtain p where p: "parse part s index = Inr p"
    by (auto split: sum.splits)
  then have "isFull part s index"
    using parse_not_full[of part s index] by auto
  then obtain m where m: "match part s index = Some m" "type m = full"
    by (auto simp: isFull_match)
  with Cons.prems p have "parseFilter_loop rest s (index + consumed m) (acc @ [p]) = Inr vals"
    by simp
  from Cons.IH[OF this] m p show ?case by simp
qed

section \<open>Strict parse\<close>

text \<open>
  What the loop of \<^verbatim>\<open>parseFilter\<close> does: it returns the parsed values when every
  fragment, in order, fully matches at the cursor left by the fragments in front of it,
  the final cursor lying within the string, and it ends with the parse error otherwise.
  The final cursor is compared with nothing.
\<close>

lemma parseFilter_all_full:
  "(if \<forall>j<length filterSyntax. isFull (filterSyntax ! j) s (cursorAt filterSyntax s 0 j)
    then (\<exists>vals. parseFilter filterSyntax s = Inr vals \<and>
            map Inr vals =
              map (\<lambda>j. parse (filterSyntax ! j) s (cursorAt filterSyntax s 0 j))
                [0..<length filterSyntax]) \<and>
         cursorAt filterSyntax s 0 (length filterSyntax) \<le> length s
    else parseFilter filterSyntax s = Inl ParseError)"
proof (cases "\<forall>j<length filterSyntax. isFull (filterSyntax ! j) s (cursorAt filterSyntax s 0 j)")
  case True
  from parseFilter_loop_all_full[OF True, of "[]"] cursorAt_bound[of 0 s filterSyntax "length filterSyntax"]
  show ?thesis using True unfolding parseFilter_def by simp
next
  case False
  from parseFilter_loop_not_full[OF False, of "[]"]
  show ?thesis using False unfolding parseFilter_def by simp
qed

text \<open>
  Claim C1. \<^verbatim>\<open>parseFilter\<close> is to succeed only if the fragments consume the whole input
  string, and to end with a parse failure when characters remain after the last
  fragment's full match. The code, evaluated at the status filter and the input
  \<^verbatim>\<open>status=404X\<close>, which the constructor of the status filter hands to it: the three
  fragments match the first ten characters in full, the character \<^verbatim>\<open>X\<close> remains, and
  the parse succeeds with the three values.
\<close>

theorem parseFilter_accepts_trailing_input:
  "parseFilter (StatusFilter_filterSyntax gen) ''status=404X'' =
     Inr [PString ''status'', PString ''='', PNumber 404] \<and>
   cursorAt (StatusFilter_filterSyntax gen) ''status=404X'' 0
     (length (StatusFilter_filterSyntax gen)) = 10 \<and>
   (10 :: nat) < length ''status=404X''"
proof -
  have k: "FixedStringSyntax_match ''status'' ''status=404X'' 0 = Some \<lparr>type = full, consumed = 6\<rparr>"
    by code_simp
  have o: "StringOptionsSyntax_match [''='', ''!='', ''>='', ''>'', ''<='', ''<''] ''status=404X'' 6 =
             Some \<lparr>type = full, consumed = 1\<rparr>"
    by code_simp
  have n: "FixedLengthNumberSyntax_match 3 ''status=404X'' 7 = Some \<lparr>type = full, consumed = 3\<rparr>"
    by code_simp
  have sl: "slice ''status=404X'' 0 6 = ''status''" "slice ''status=404X'' 6 7 = ''=''"
      "slice ''status=404X'' 7 10 = ''404''"
    by code_simp+
  have pi: "parseInt ''404'' = PNumber 404"
    by code_simp
  show ?thesis
    by (simp add: parseFilter_def StatusFilter_filterSyntax_def getParsedValue_def k o n sl pi)
qed

section \<open>Best-effort parse\<close>

text \<open>
  Claim C3. For every filter definition and every string on which \<^verbatim>\<open>parseFilter\<close>
  succeeds, \<^verbatim>\<open>tryParseFilter\<close> on the same string returns the same list: the same
  parsed value for every fragment, in the same order.
\<close>

theorem parseFilter_tryParseFilter_agree:
  "parseFilter filterSyntax s = Inr vals \<Longrightarrow> tryParseFilter filterSyntax s = Inr vals"
  unfolding parseFilter_def tryParseFilter_def by (rule parseFilter_loop_tryParseFilter_loop)

text \<open>The status filter at \<^verbatim>\<open>status>=404\<close>.\<close>

theorem parseFilter_tryParseFilter_agree_witness:
  "parseFilter (StatusFilter_filterSyntax (\<lambda>v i ctx. ctx) :: string list SyntaxPart list)
       ''status>=404'' =
     Inr [PString ''status'', PString ''>='', PNumber 404] \<and>
   tryParseFilter (StatusFilter_filterSyntax (\<lambda>v i ctx. ctx) :: string list SyntaxPart list)
       ''status>=404'' =
     Inr [PString ''status'', PString ''>='', PNumber 404]"
proof -
  have p: "parseFilter (StatusFilter_filterSyntax (\<lambda>v i ctx. ctx) :: string list SyntaxPart list)
       ''status>=404'' =
     Inr [PString ''status'', PString ''>='', PNumber 404]"
    by code_simp
  from parseFilter_tryParseFilter_agree[OF p] p show ?thesis by blast
qed

text \<open>
  Claim C8. For every filter definition and every input string, \<^verbatim>\<open>tryParseFilter\<close>
  does not throw: it returns a list. The list holds, in order, the parsed values of the
  first \<open>n\<close> fragments, each of which fully matches at its cursor, and \<open>n\<close> is either the
  number of fragments or the position of the first fragment whose match is not full; the
  list may be empty.
\<close>

theorem tryParseFilter_longest_full_prefix:
  "\<exists>n vals. n \<le> length filterSyntax \<and>
     tryParseFilter filterSyntax s = Inr vals \<and>
     map Inr vals =
       map (\<lambda>j. parse (filterSyntax ! j) s (cursorAt filterSyntax s 0 j)) [0..<n] \<and>
     (\<forall>j<n. isFull (filterSyntax ! j) s (cursorAt filterSyntax s 0 j)) \<and>
     (n < length filterSyntax \<longrightarrow> \<not> isFull (filterSyntax ! n) s (cursorAt filterSyntax s 0 n))"
  using tryParseFilter_loop_prefix[of filterSyntax s 0 "[]"]
  unfolding tryParseFilter_def by simp

text \<open>
  The status filter at \<^verbatim>\<open>status=40\<close>: keyword and operator are parsed, and the number
  with two of its three digits is where the loop stops.
\<close>

theorem tryParseFilter_longest_full_prefix_witness:
  "tryParseFilter (StatusFilter_filterSyntax (\<lambda>v i ctx. ctx) :: string list SyntaxPart list)
       ''status=40'' =
     Inr [PString ''status'', PString ''=''] \<and>
   isFull ((StatusFilter_filterSyntax (\<lambda>v i ctx. ctx) :: string list SyntaxPart list) ! 1) ''status=40''
     (cursorAt (StatusFilter_filterSyntax (\<lambda>v i ctx. ctx)) ''status=40'' 0 1) \<and>
   \<not> isFull ((StatusFilter_filterSyntax (\<lambda>v i ctx. ctx) :: string list SyntaxPart list) ! 2) ''status=40''
     (cursorAt (StatusFilter_filterSyntax (\<lambda>v i ctx. ctx)) ''status=40'' 0 2)"
proof -
  let ?parts = "StatusFilter_filterSyntax (\<lambda>v i ctx. ctx) :: string list SyntaxPart list"
  let ?s = "''status=40''"
  have e: "tryParseFilter ?parts ?s = Inr [PString ''status'', PString ''='']"
    by code_simp
  have len: "length ?parts = 3"
    by (simp add: StatusFilter_filterSyntax_def)
  from tryParseFilter_longest_full_prefix[of ?parts ?s]
  obtain n vals where t: "tryParseFilter ?parts ?s = Inr vals"
    and v: "map Inr vals = map (\<lambda>j. parse (?parts ! j) ?s (cursorAt ?parts ?s 0 j)) [0..<n]"
    and f: "\<forall>j<n. isFull (?parts ! j) ?s (cursorAt ?parts ?s 0 j)"
    and l: "n < length ?parts \<longrightarrow> \<not> isFull (?parts ! n) ?s (cursorAt ?parts ?s 0 n)"
    by blast
  from t e have "vals = [PString ''status'', PString ''='']" by simp
  moreover from arg_cong[OF v, of length] have "length vals = n"
    by simp
  ultimately have n: "n = 2" by simp
  from f n have "isFull (?parts ! 1) ?s (cursorAt ?parts ?s 0 1)" by simp
  moreover from l n len have "\<not> isFull (?parts ! 2) ?s (cursorAt ?parts ?s 0 2)" by simp
  ultimately show ?thesis using e by blast
qed

end
